theory Spec2Isabelle
  imports Main
begin

section \<open>The CI matrix generator \<open>list-integration-tests.py\<close>\<close>

text \<open>
  The script reads the commit messages between a merge base and \<open>HEAD\<close>, collects the
  values of the \<open>CI-Test-Kernel:\<close> trailers, adds the default kernel given on the command
  line and prints one matrix row per kernel, scheduler and flag combination.

  Python's \<open>str\<close> is a sequence of code points. The model uses \<open>string\<close>, whose
  characters have eight bits, so it covers the strings all of whose code points are below
  256; a \<open>char\<close> is read as the code point \<open>of_char c\<close>.
\<close>

subsection \<open>Python's string operations\<close>

datatype error = CalledProcessError | ValueError | IndexError

text \<open>
  \<open>str.isspace\<close> on one character, for the code points below 256: TAB, LF, VT, FF, CR,
  the separators FS, GS, RS, US, the space, NEL (0x85) and the no-break space (0xA0).
\<close>

definition py_isspace :: "char \<Rightarrow> bool" where
  "py_isspace c =
     (let n = (of_char c :: nat)
      in (9 \<le> n \<and> n \<le> 13) \<or> (28 \<le> n \<and> n \<le> 32) \<or> n = 133 \<or> n = 160)"

text \<open>\<open>s.strip()\<close>: whitespace removed at both ends.\<close>

definition strip :: "string \<Rightarrow> string" where
  "strip s = rev (dropWhile py_isspace (rev (dropWhile py_isspace s)))"

text \<open>\<open>s.startswith(p)\<close>.\<close>

definition startswith :: "string \<Rightarrow> string \<Rightarrow> bool" where
  "startswith s p = (take (length p) s = p)"

text \<open>
  \<open>s.split(sep, maxsplit)\<close> for a non-empty separator: the occurrences of \<open>sep\<close> are
  found from the left and do not overlap; at most \<open>maxsplit\<close> of them split the string
  (\<open>None\<close> is Python's default, no limit). The result is never empty.
\<close>

function split_from :: "string \<Rightarrow> nat option \<Rightarrow> string \<Rightarrow> string list" where
  "split_from sep m [] = [[]]"
| "split_from sep m (c # cs) =
     (if m \<noteq> Some 0 \<and> sep \<noteq> [] \<and> startswith (c # cs) sep
      then [] # split_from sep (map_option (\<lambda>k. k - 1) m) (drop (length sep) (c # cs))
      else (case split_from sep m cs of
              [] \<Rightarrow> [[c]]
            | p # ps \<Rightarrow> (c # p) # ps))"
  by pat_completeness auto
termination
  by (relation "measure (\<lambda>(sep, m, s). length s)") auto

text \<open>Python raises \<open>ValueError\<close> for an empty separator.\<close>

definition py_split :: "string \<Rightarrow> nat option \<Rightarrow> string \<Rightarrow> error + string list" where
  "py_split sep m s = (if sep = [] then Inl ValueError else Inr (split_from sep m s))"

text \<open>\<open>xs[i]\<close> for a non-negative index: \<open>IndexError\<close> out of range.\<close>

definition py_index :: "'a list \<Rightarrow> nat \<Rightarrow> error + 'a" where
  "py_index xs i = (if i < length xs then Inr (xs ! i) else Inl IndexError)"

text \<open>\<open>sep.join(xs)\<close>.\<close>

fun py_join :: "string \<Rightarrow> string list \<Rightarrow> string" where
  "py_join sep [] = []"
| "py_join sep [x] = x"
| "py_join sep (x # y # ys) = x @ sep @ py_join sep (y # ys)"

subsection \<open>The trailer extractor\<close>

text \<open>
  The environment of a run: the variable \<open>GITHUB_BASE_REF\<close> (\<open>None\<close> when it is not set)
  and the \<open>git\<close> executable, a function from the argument list to the captured standard
  output, or to \<open>CalledProcessError\<close> when the command exits with a non-zero status
  (\<open>check=True\<close>).
\<close>

record environment =
  GITHUB_BASE_REF :: "string option"
  subprocess_run :: "string list \<Rightarrow> error + string"

definition newline :: char where
  "newline = CHR 0x0A"

definition ENDOFCOMMIT :: string where
  "ENDOFCOMMIT = ''---ENDOFCOMMIT---''"

text \<open>
  The inner loop \<open>for i in range(len(lines) - 1, -1, -1)\<close>: \<open>scan_lines lines n kernels\<close>
  runs it for \<open>i = n - 1, ..., 0\<close>. A blank line is skipped (\<open>continue\<close>), a line without
  a colon ends the loop (\<open>break\<close>), a line that starts with the key adds its value.
\<close>

fun scan_lines :: "string list \<Rightarrow> nat \<Rightarrow> string set \<Rightarrow> error + string set" where
  "scan_lines lines 0 kernels = Inr kernels"
| "scan_lines lines (Suc i) kernels =
     (let line = strip (lines ! i) in
      if line = [] then scan_lines lines i kernels
      else if CHR '':'' \<notin> set line then Inr kernels
      else if startswith line ''CI-Test-Kernel:'' then
        (case py_split '':'' (Some 1) line of
           Inl e \<Rightarrow> Inl e
         | Inr parts \<Rightarrow>
             (case py_index parts 1 of
                Inl e \<Rightarrow> Inl e
              | Inr v \<Rightarrow> scan_lines lines i (insert (strip v) kernels)))
      else scan_lines lines i kernels)"

text \<open>
  The outer loop \<open>for commit_message in commit_messages\<close>. The subject line that the
  source keeps for its progress message does not enter the result.
\<close>

fun scan_commits :: "string list \<Rightarrow> string set \<Rightarrow> error + string set" where
  "scan_commits [] kernels = Inr kernels"
| "scan_commits (m # ms) kernels =
     (let commit_message = strip m in
      if commit_message = [] then scan_commits ms kernels
      else
        (case py_split [newline] None commit_message of
           Inl e \<Rightarrow> Inl e
         | Inr lines \<Rightarrow>
             (case scan_lines lines (length lines) kernels of
                Inl e \<Rightarrow> Inl e
              | Inr kernels' \<Rightarrow> scan_commits ms kernels')))"

text \<open>The part of the function after \<open>git log\<close> has returned its output.\<close>

definition trailers_of_log :: "string \<Rightarrow> error + string set" where
  "trailers_of_log out =
     (if strip out = [] then Inr {}
      else
        (case py_split ENDOFCOMMIT None out of
           Inl e \<Rightarrow> Inl e
         | Inr commit_messages \<Rightarrow> scan_commits commit_messages {}))"

text \<open>
  The first part of the function: \<open>not base_ref\<close> holds when the variable is not set or
  is empty; then the merge base is taken with \<open>origin/main\<close>, otherwise with the target
  branch.
\<close>

definition merge_base_of :: "environment \<Rightarrow> error + string" where
  "merge_base_of env =
     (case GITHUB_BASE_REF env of
        None \<Rightarrow>
          map_sum id strip
            (subprocess_run env [''git'', ''merge-base'', ''HEAD'', ''origin/main''])
      | Some base_ref \<Rightarrow>
          if base_ref = []
          then map_sum id strip
                 (subprocess_run env [''git'', ''merge-base'', ''HEAD'', ''origin/main''])
          else map_sum id strip
                 (subprocess_run env
                    [''git'', ''merge-base'', ''HEAD'', ''origin/'' @ base_ref]))"

text \<open>The \<open>git log\<close> call over the range \<open>merge_base..HEAD\<close>.\<close>

definition git_log :: "environment \<Rightarrow> string \<Rightarrow> error + string" where
  "git_log env merge_base =
     (let log_range = merge_base @ ''..HEAD''
      in subprocess_run env
           [''git'', ''log'', ''--format=%B%n---ENDOFCOMMIT---'', log_range])"

definition get_kernel_trailers_from_commits :: "environment \<Rightarrow> error + string set" where
  "get_kernel_trailers_from_commits env =
     (case merge_base_of env of
        Inl e \<Rightarrow> Inl e
      | Inr merge_base \<Rightarrow>
          (case git_log env merge_base of
             Inl e \<Rightarrow> Inl e
           | Inr out \<Rightarrow> trailers_of_log out))"

subsection \<open>The matrix builder\<close>

text \<open>
  A matrix row is a Python dict with the keys \<open>name\<close>, \<open>flags\<close> and \<open>kernel\<close>, in this
  order of insertion, which is the order \<open>json.dumps\<close> prints them in: an association
  list.
\<close>

type_synonym row = "(string \<times> string) list"

definition mk_row :: "string \<Rightarrow> string \<Rightarrow> string \<Rightarrow> row" where
  "mk_row n f k = [(''name'', n), (''flags'', f), (''kernel'', k)]"

definition schedulers :: "string list" where
  "schedulers =
     [''scx_bpfland'', ''scx_chaos'', ''scx_lavd'', ''scx_rlfifo'', ''scx_rustland'',
      ''scx_rusty'', ''scx_tickless'']"

text \<open>
  \<open>itertools.product(xs, ys)\<close> yields the pairs with the first component varying slowest;
  a pair is passed to \<open>join\<close> as the sequence of its two components.
\<close>

definition layered_flags :: "string list list" where
  "layered_flags =
     map (\<lambda>(a, b). [a, b])
       (List.product [''--disable-topology=false'', ''--disable-topology=true'']
                     ['''', ''--disable-antistall''])"

text \<open>
  The body of \<open>for kernel in kernels_to_test\<close>, which appends to \<open>matrix\<close>; the loop
  variable is written \<open>k\<close>.
\<close>

definition kernel_body :: "string \<Rightarrow> row list \<Rightarrow> string \<Rightarrow> row list" where
  "kernel_body default_kernel matrix k =
     (let kernel_name = (if k = default_kernel then [] else k);
          matrix1 = foldl (\<lambda>m scheduler. m @ [mk_row scheduler [] kernel_name])
                      matrix schedulers;
          matrix2 = (if k \<noteq> ''stable/6_12''
                     then matrix1 @ [mk_row ''scx_p2dq'' [] kernel_name]
                     else matrix1)
      in foldl (\<lambda>m flags. m @ [mk_row ''scx_layered'' (py_join '' '' flags) kernel_name])
           matrix2 layered_flags)"

text \<open>
  The loop over the kernel set. The order in which Python iterates over a set is not
  specified; \<open>ks\<close> is the order of one run.
\<close>

definition build_matrix :: "string \<Rightarrow> string list \<Rightarrow> row list" where
  "build_matrix default_kernel ks = foldl (kernel_body default_kernel) [] ks"

subsection \<open>\<open>json.dumps\<close> on a list of dicts of strings\<close>

text \<open>
  With the default \<open>ensure_ascii=True\<close>, the encoder keeps the printable ASCII characters
  from the space to the tilde, except the quote and the backslash, and escapes every other
  character: the short escapes of its table, and \<open>\uXXXX\<close> with four lower-case
  hexadecimal digits otherwise.
\<close>

definition hex_digit :: "nat \<Rightarrow> char" where
  "hex_digit n = ''0123456789abcdef'' ! (n mod 16)"

definition escape_char :: "char \<Rightarrow> string" where
  "escape_char c =
     (let n = (of_char c :: nat) in
      if c = CHR 0x5C then [CHR 0x5C, CHR 0x5C]
      else if c = CHR 0x22 then [CHR 0x5C, CHR 0x22]
      else if n = 8 then [CHR 0x5C, CHR ''b'']
      else if n = 12 then [CHR 0x5C, CHR ''f'']
      else if n = 10 then [CHR 0x5C, CHR ''n'']
      else if n = 13 then [CHR 0x5C, CHR ''r'']
      else if n = 9 then [CHR 0x5C, CHR ''t'']
      else if 32 \<le> n \<and> n \<le> 126 then [c]
      else [CHR 0x5C, CHR ''u'', hex_digit (n div 4096), hex_digit (n div 256),
            hex_digit (n div 16), hex_digit n])"

definition dumps_str :: "string \<Rightarrow> string" where
  "dumps_str s = CHR 0x22 # concat (map escape_char s) @ [CHR 0x22]"

text \<open>The default separators are \<open>", "\<close> between items and \<open>": "\<close> after a key.\<close>

definition dumps_member :: "string \<times> string \<Rightarrow> string" where
  "dumps_member kv = dumps_str (fst kv) @ '': '' @ dumps_str (snd kv)"

definition dumps_dict :: "(string \<times> string) list \<Rightarrow> string" where
  "dumps_dict d = ''{'' @ py_join '', '' (map dumps_member d) @ ''}''"

definition json_dumps :: "(string \<times> string) list list \<Rightarrow> string" where
  "json_dumps xs = ''['' @ py_join '', '' (map dumps_dict xs) @ '']''"

subsection \<open>The entry point\<close>

text \<open>
  What a run leaves behind: the exit status, the lines \<open>main\<close> prints on standard output
  and the lines \<open>main\<close> prints on \<open>sys.stderr\<close>. The progress lines of the extractor on
  \<open>sys.stderr\<close> are advisory and are left out. \<open>Inl e\<close> is a run that ends in the
  uncaught exception \<open>e\<close>, before anything is printed on standard output.

  \<open>set_iter\<close> gives the order in which the run iterates over a set of strings; \<open>argv\<close> is
  \<open>sys.argv\<close>, the script's name first.
\<close>

record run =
  exit_code :: nat
  stdout :: "string list"
  stderr :: "string list"

text \<open>\<open>kernels_to_test = {default_kernel}\<close> followed by \<open>update(trailer_kernels)\<close>.\<close>

definition kernels_to_test :: "string \<Rightarrow> string set \<Rightarrow> string set" where
  "kernels_to_test default_kernel trailer_kernels = {default_kernel} \<union> trailer_kernels"

definition main :: "(string set \<Rightarrow> string list) \<Rightarrow> environment \<Rightarrow> string list \<Rightarrow> error + run" where
  "main set_iter env argv =
     (if length argv \<noteq> 2
      then Inr \<lparr>exit_code = 1, stdout = [],
                stderr = [''Usage: list-integration-tests.py <default-kernel>'']\<rparr>
      else
        (let default_kernel = argv ! 1 in
         case get_kernel_trailers_from_commits env of
           Inl e \<Rightarrow> Inl e
         | Inr trailer_kernels \<Rightarrow>
             (let matrix = build_matrix default_kernel
                             (set_iter (kernels_to_test default_kernel trailer_kernels))
              in Inr \<lparr>exit_code = 0, stdout = [''matrix='' @ json_dumps matrix],
                       stderr = []\<rparr>)))"

text \<open>The rows one iteration of the kernel loop appends.\<close>

definition kernel_rows :: "string \<Rightarrow> string \<Rightarrow> row list" where
  "kernel_rows default_kernel k = kernel_body default_kernel [] k"

subsection \<open>The specification's reading of the layered flags\<close>


subsection \<open>The specification's reading of the trailer scan\<close>

definition trailer_key :: string where
  "trailer_key = ''CI-Test-Kernel:''"

text \<open>What follows the first colon of a line.\<close>

definition after_first_colon :: "string \<Rightarrow> string" where
  "after_first_colon l = drop 1 (dropWhile (\<lambda>c. c \<noteq> CHR '':'') l)"

text \<open>
  The scan as the specification words it: the lines are taken from the last one backward,
  each stripped of surrounding whitespace; the empty ones are skipped; the scan stops at
  the first remaining line without a colon; of the lines met before the stop, those that
  start with the key contribute their value, the text after the key, stripped.
\<close>

definition spec_scanned :: "string list \<Rightarrow> string list" where
  "spec_scanned lines =
     takeWhile (\<lambda>l. CHR '':'' \<in> set l) (filter (\<lambda>l. l \<noteq> []) (map strip (rev lines)))"

definition spec_trailers :: "string list \<Rightarrow> string set" where
  "spec_trailers lines =
     (\<lambda>l. strip (drop (length trailer_key) l)) `
       set (filter (\<lambda>l. startswith l trailer_key) (spec_scanned lines))"

text \<open>The trailers of one block of the \<open>git log\<close> output; a blank block has none.\<close>

definition spec_block_trailers :: "string \<Rightarrow> string set" where
  "spec_block_trailers m =
     (if strip m = [] then {} else spec_trailers (split_from [newline] None (strip m)))"

subsection \<open>Reading the output back: JSON arrays of objects of strings\<close>

text \<open>
  The specification asks that the printed text parse as a JSON array of objects with string
  values. The reader below accepts exactly the JSON texts of that shape, after the JSON
  grammar: insignificant whitespace (space, TAB, LF, CR) around the structural characters,
  strings between quotes with the escapes \<open>\"\<close>, \<open>\\\<close>, \<open>\/\<close>, \<open>\b\<close>, \<open>\f\<close>, \<open>\n\<close>,
  \<open>\r\<close>, \<open>\t\<close> and \<open>\uXXXX\<close>, and no unescaped control character. An object is read as the
  list of its members in the order of the text. A \<open>\uXXXX\<close> escape of a code point of 256 or
  more denotes a character outside the model's strings and is refused.
\<close>

definition json_ws :: "char \<Rightarrow> bool" where
  "json_ws c = (c = CHR '' '' \<or> c = CHR 0x09 \<or> c = CHR 0x0A \<or> c = CHR 0x0D)"

definition skip_ws :: "string \<Rightarrow> string" where
  "skip_ws s = dropWhile json_ws s"

definition hex_value :: "char \<Rightarrow> nat option" where
  "hex_value c =
     (let n = (of_char c :: nat) in
      if 48 \<le> n \<and> n \<le> 57 then Some (n - 48)
      else if 97 \<le> n \<and> n \<le> 102 then Some (n - 87)
      else if 65 \<le> n \<and> n \<le> 70 then Some (n - 55)
      else None)"

definition hex4 :: "char \<Rightarrow> char \<Rightarrow> char \<Rightarrow> char \<Rightarrow> nat option" where
  "hex4 a b c d =
     (case hex_value a of None \<Rightarrow> None | Some x3 \<Rightarrow>
      case hex_value b of None \<Rightarrow> None | Some x2 \<Rightarrow>
      case hex_value c of None \<Rightarrow> None | Some x1 \<Rightarrow>
      case hex_value d of None \<Rightarrow> None | Some x0 \<Rightarrow>
        Some (((x3 * 16 + x2) * 16 + x1) * 16 + x0))"

definition unescape :: "char \<Rightarrow> char option" where
  "unescape e =
     (if e = CHR 0x22 then Some (CHR 0x22)
      else if e = CHR 0x5C then Some (CHR 0x5C)
      else if e = CHR ''/'' then Some (CHR ''/'')
      else if e = CHR ''b'' then Some (CHR 0x08)
      else if e = CHR ''f'' then Some (CHR 0x0C)
      else if e = CHR ''n'' then Some (CHR 0x0A)
      else if e = CHR ''r'' then Some (CHR 0x0D)
      else if e = CHR ''t'' then Some (CHR 0x09)
      else None)"

text \<open>The characters of a string up to its closing quote, and the text after it.\<close>

fun parse_chars :: "string \<Rightarrow> (string \<times> string) option" where
  "parse_chars [] = None"
| "parse_chars (c # cs) =
     (if c = CHR 0x22 then Some ([], cs)
      else if c = CHR 0x5C then
        (case cs of
           [] \<Rightarrow> None
         | e # r \<Rightarrow>
             if e = CHR ''u'' then
               (case r of
                  h3 # h2 # h1 # h0 # r' \<Rightarrow>
                    (case hex4 h3 h2 h1 h0 of
                       None \<Rightarrow> None
                     | Some n \<Rightarrow>
                         if n < 256 then
                           (case parse_chars r' of
                              None \<Rightarrow> None
                            | Some (s, rest) \<Rightarrow> Some (char_of n # s, rest))
                         else None)
                | _ \<Rightarrow> None)
             else
               (case unescape e of
                  None \<Rightarrow> None
                | Some ch \<Rightarrow>
                    (case parse_chars r of
                       None \<Rightarrow> None
                     | Some (s, rest) \<Rightarrow> Some (ch # s, rest))))
      else if (of_char c :: nat) < 32 then None
      else
        (case parse_chars cs of
           None \<Rightarrow> None
         | Some (s, rest) \<Rightarrow> Some (c # s, rest)))"

definition parse_string :: "string \<Rightarrow> (string \<times> string) option" where
  "parse_string s =
     (case s of
        [] \<Rightarrow> None
      | c # cs \<Rightarrow> if c = CHR 0x22 then parse_chars cs else None)"

text \<open>A member \<open>"key": "value"\<close> of an object.\<close>

definition parse_member :: "string \<Rightarrow> ((string \<times> string) \<times> string) option" where
  "parse_member s =
     (case parse_string s of
        None \<Rightarrow> None
      | Some (k, r1) \<Rightarrow>
          (case skip_ws r1 of
             [] \<Rightarrow> None
           | c # r2 \<Rightarrow>
               if c = CHR '':'' then
                 (case parse_string (skip_ws r2) of
                    None \<Rightarrow> None
                  | Some (v, r3) \<Rightarrow> Some ((k, v), r3))
               else None))"

text \<open>
  One or more items separated by commas, up to the closing character. The item reader must
  consume input for the reading to go on; every reader that returns a rest of its input
  does.
\<close>

function parse_items ::
  "(string \<Rightarrow> ('a \<times> string) option) \<Rightarrow> char \<Rightarrow> string \<Rightarrow> ('a list \<times> string) option" where
  "parse_items p close s =
     (case p s of
        None \<Rightarrow> None
      | Some (x, r) \<Rightarrow>
          (case skip_ws r of
             [] \<Rightarrow> None
           | c # r' \<Rightarrow>
               if c = close then Some ([x], r')
               else if c = CHR '','' \<and> length (skip_ws r') < length s then
                 (case parse_items p close (skip_ws r') of
                    None \<Rightarrow> None
                  | Some (xs, r'') \<Rightarrow> Some (x # xs, r''))
               else None))"
  by pat_completeness auto
termination
  by (relation "measure (\<lambda>(p, close, s). length s)") auto

text \<open>An opening character, then either the closing one or a sequence of items.\<close>

definition parse_bracketed ::
  "char \<Rightarrow> (string \<Rightarrow> ('a \<times> string) option) \<Rightarrow> char \<Rightarrow> string \<Rightarrow> ('a list \<times> string) option" where
  "parse_bracketed opn p close s =
     (case s of
        [] \<Rightarrow> None
      | c # r \<Rightarrow>
          if c = opn then
            (case skip_ws r of
               [] \<Rightarrow> None
             | c' # r' \<Rightarrow>
                 if c' = close then Some ([], r')
                 else parse_items p close (skip_ws r))
          else None)"

definition parse_object :: "string \<Rightarrow> ((string \<times> string) list \<times> string) option" where
  "parse_object = parse_bracketed (CHR ''{'') parse_member (CHR ''}'')"

definition parse_array :: "string \<Rightarrow> ((string \<times> string) list list \<times> string) option" where
  "parse_array = parse_bracketed (CHR ''['') parse_object (CHR '']'')"

text \<open>The whole text: one array, with whitespace allowed on both sides.\<close>

definition json_loads :: "string \<Rightarrow> (string \<times> string) list list option" where
  "json_loads s =
     (case parse_array (skip_ws s) of
        None \<Rightarrow> None
      | Some (v, r) \<Rightarrow> if skip_ws r = [] then Some v else None)"

section \<open>Properties of the trailer extractor\<close>

subsection \<open>Splitting and stripping\<close>

lemma split_from_zero: "split_from sep (Some 0) s = [s]"
  by (induction s) simp_all

lemma startswith_append: "startswith s p \<longleftrightarrow> (\<exists>r. s = p @ r)"
  unfolding startswith_def
  by (metis append_eq_conv_conj append_take_drop_id)

lemma split_key:
  "split_from '':'' (Some 1) (''CI-Test-Kernel:'' @ r) = [''CI-Test-Kernel'', r]"
  by (simp add: startswith_def split_from_zero)

lemma drop_key: "drop (length trailer_key) (''CI-Test-Kernel:'' @ r) = r"
  by (simp add: trailer_key_def)

lemma after_first_colon_key: "after_first_colon (''CI-Test-Kernel:'' @ r) = r"
  by (simp add: after_first_colon_def)

lemma key_value:
  assumes "startswith line ''CI-Test-Kernel:''"
  shows "py_split '':'' (Some 1) line = Inr [''CI-Test-Kernel'', drop (length trailer_key) line]"
    and "after_first_colon line = drop (length trailer_key) line"
proof -
  from assms obtain r where line: "line = ''CI-Test-Kernel:'' @ r"
    unfolding startswith_append by blast
  show "py_split '':'' (Some 1) line = Inr [''CI-Test-Kernel'', drop (length trailer_key) line]"
    unfolding line drop_key split_key py_split_def by simp
  show "after_first_colon line = drop (length trailer_key) line"
    unfolding line drop_key after_first_colon_key by (rule refl)
qed

lemma spec_scanned_snoc:
  "spec_scanned (ls @ [l]) =
     (if strip l = [] then spec_scanned ls
      else if CHR '':'' \<in> set (strip l) then strip l # spec_scanned ls else [])"
  by (simp add: spec_scanned_def)

lemma spec_trailers_snoc:
  "spec_trailers (ls @ [l]) =
     (if strip l = [] then spec_trailers ls
      else if CHR '':'' \<notin> set (strip l) then {}
      else if startswith (strip l) trailer_key
      then insert (strip (drop (length trailer_key) (strip l))) (spec_trailers ls)
      else spec_trailers ls)"
  by (auto simp: spec_trailers_def spec_scanned_snoc)

lemma scan_lines_step:
  "scan_lines lines (Suc i) kernels =
     (if strip (lines ! i) = [] then scan_lines lines i kernels
      else if CHR '':'' \<notin> set (strip (lines ! i)) then Inr kernels
      else if startswith (strip (lines ! i)) trailer_key
      then scan_lines lines i
             (insert (strip (drop (length trailer_key) (strip (lines ! i)))) kernels)
      else scan_lines lines i kernels)"
proof (cases "startswith (strip (lines ! i)) ''CI-Test-Kernel:''")
  case True
  show ?thesis
    unfolding scan_lines.simps Let_def key_value(1) [OF True]
    using True by (simp add: py_index_def trailer_key_def)
next
  case False
  then show ?thesis by (simp add: Let_def trailer_key_def)
qed

lemma scan_lines_spec:
  "n \<le> length lines \<Longrightarrow>
   scan_lines lines n kernels = Inr (kernels \<union> spec_trailers (take n lines))"
proof (induction n arbitrary: kernels)
  case 0
  show ?case by (simp add: spec_trailers_def spec_scanned_def)
next
  case (Suc i)
  then have i: "i < length lines" and le: "i \<le> length lines" by simp_all
  have tk: "take (Suc i) lines = take i lines @ [lines ! i]"
    using i by (rule take_Suc_conv_app_nth)
  show ?case
    unfolding scan_lines_step tk spec_trailers_snoc
    by (simp add: Suc.IH [OF le])
qed

lemma scan_commits_spec:
  "scan_commits ms kernels = Inr (kernels \<union> \<Union> (spec_block_trailers ` set ms))"
proof (induction ms arbitrary: kernels)
  case Nil
  show ?case by simp
next
  case (Cons m ms)
  show ?case
  proof (cases "strip m = []")
    case True
    then show ?thesis by (simp add: Cons.IH spec_block_trailers_def)
  next
    case False
    have sp: "py_split [newline] None (strip m) = Inr (split_from [newline] None (strip m))"
      by (simp add: py_split_def)
    show ?thesis
      using False
      by (simp add: Let_def sp scan_lines_spec Cons.IH spec_block_trailers_def Un_assoc)
  qed
qed

lemma trailers_of_log_spec:
  "trailers_of_log out =
     Inr (if strip out = [] then {}
          else \<Union> (spec_block_trailers ` set (split_from ENDOFCOMMIT None out)))"
  by (simp add: trailers_of_log_def py_split_def ENDOFCOMMIT_def scan_commits_spec)

lemma strip_append_space:
  assumes "\<forall>c \<in> set sp. py_isspace c"
  shows "strip (s @ sp) = strip s"
proof (cases "\<forall>c \<in> set s. py_isspace c")
  case True
  then have a: "dropWhile py_isspace (s @ sp) = []" and b: "dropWhile py_isspace s = []"
    using assms by (auto simp: dropWhile_eq_Nil_conv)
  show ?thesis unfolding strip_def a b by (rule refl)
next
  case False
  then obtain x where "x \<in> set s" and "\<not> py_isspace x" by blast
  then have l: "dropWhile py_isspace (s @ sp) = dropWhile py_isspace s @ sp"
    by (rule dropWhile_append1)
  have "dropWhile py_isspace (rev sp @ rev (dropWhile py_isspace s)) =
          dropWhile py_isspace (rev (dropWhile py_isspace s))"
    using assms by (intro dropWhile_append2) simp
  then show ?thesis by (simp add: strip_def l)
qed

lemma strip_space_append:
  assumes "\<forall>c \<in> set sp. py_isspace c"
  shows "strip (sp @ s) = strip s"
proof -
  have "dropWhile py_isspace (sp @ s) = dropWhile py_isspace s"
    using assms by (intro dropWhile_append2) simp
  then show ?thesis by (simp add: strip_def)
qed

lemma rstrip_decomp:
  "\<exists>sp. (\<forall>c \<in> set sp. py_isspace c) \<and> v = rev (dropWhile py_isspace (rev v)) @ sp"
proof (intro exI conjI)
  show "\<forall>c \<in> set (rev (takeWhile py_isspace (rev v))). py_isspace c"
    by (auto dest: set_takeWhileD)
  have "rev (rev v) = rev (takeWhile py_isspace (rev v) @ dropWhile py_isspace (rev v))"
    by (simp only: takeWhile_dropWhile_id)
  then show "v = rev (dropWhile py_isspace (rev v)) @ rev (takeWhile py_isspace (rev v))"
    by (simp only: rev_rev_ident rev_append)
qed

lemma strip_key_line:
  "strip (''CI-Test-Kernel:'' @ v) = ''CI-Test-Kernel:'' @ rev (dropWhile py_isspace (rev v))"
proof -
  have l: "dropWhile py_isspace (''CI-Test-Kernel:'' @ v) = ''CI-Test-Kernel:'' @ v"
    by (simp add: py_isspace_def)
  have r: "dropWhile py_isspace (rev v @ rev ''CI-Test-Kernel:'') =
           dropWhile py_isspace (rev v) @ rev ''CI-Test-Kernel:''"
  proof (cases "\<forall>c \<in> set (rev v). py_isspace c")
    case True
    then have "dropWhile py_isspace (rev v @ rev ''CI-Test-Kernel:'') =
               dropWhile py_isspace (rev ''CI-Test-Kernel:'')"
      by (intro dropWhile_append2) simp
    moreover have "dropWhile py_isspace (rev v) = []"
      using True by (simp add: dropWhile_eq_Nil_conv)
    ultimately show ?thesis by (simp add: py_isspace_def)
  next
    case False
    then obtain x where "x \<in> set (rev v)" and "\<not> py_isspace x" by blast
    then show ?thesis by (rule dropWhile_append1)
  qed
  have "strip (''CI-Test-Kernel:'' @ v) =
          rev (dropWhile py_isspace (rev v @ rev ''CI-Test-Kernel:''))"
    unfolding strip_def l by simp
  also have "\<dots> = rev (dropWhile py_isspace (rev v) @ rev ''CI-Test-Kernel:'')"
    unfolding r by (rule refl)
  also have "\<dots> = ''CI-Test-Kernel:'' @ rev (dropWhile py_isspace (rev v))"
    by simp
  finally show ?thesis .
qed

lemma strip_rstrip: "strip (rev (dropWhile py_isspace (rev v))) = strip v"
proof -
  obtain sp where sp: "\<forall>c \<in> set sp. py_isspace c"
    and v: "v = rev (dropWhile py_isspace (rev v)) @ sp"
    using rstrip_decomp by blast
  have "strip v = strip (rev (dropWhile py_isspace (rev v)) @ sp)"
    using v by simp
  also have "\<dots> = strip (rev (dropWhile py_isspace (rev v)))"
    using sp by (rule strip_append_space)
  finally show ?thesis by (rule sym)
qed

lemma subject_in_scanned:
  assumes rest: "\<forall>l \<in> set rest. strip l = [] \<or> CHR '':'' \<in> set (strip l)"
    and subj: "startswith (strip subject) ''CI-Test-Kernel:''"
  shows "strip subject \<in> set (spec_scanned (subject # rest))"
proof -
  from subj obtain r where s: "strip subject = ''CI-Test-Kernel:'' @ r"
    unfolding startswith_append by blast
  let ?above = "filter (\<lambda>l. l \<noteq> []) (map strip (rev rest))"
  have all: "\<And>x. x \<in> set ?above \<Longrightarrow> CHR '':'' \<in> set x"
    using rest by auto
  have "spec_scanned (subject # rest) =
          takeWhile (\<lambda>l. CHR '':'' \<in> set l) (?above @ [strip subject])"
    by (simp add: spec_scanned_def s)
  also have "\<dots> = ?above @ takeWhile (\<lambda>l. CHR '':'' \<in> set l) [strip subject]"
    using all by (rule takeWhile_append2)
  also have "\<dots> = ?above @ [strip subject]"
    by (simp add: s)
  finally show ?thesis by simp
qed

subsection \<open>The backward scan\<close>

text \<open>
  Claim C2: for every commit message block, the extraction scans the lines from the last
  one backward, skips the lines that are empty once stripped, stops at the first remaining
  line without a colon, and adds the stripped value of every line met before the stop
  that starts with \<open>CI-Test-Kernel:\<close>. This holds for the inner loop on any list of lines
  and any set collected so far, and for the loop over the blocks. The message with a
  colon-less body line above the trailer yields \<open>foo\<close>; the message with a colon-less note
  below the trailer yields nothing.
\<close>

theorem trailer_scan:
  "scan_lines lines (length lines) kernels = Inr (kernels \<union> spec_trailers lines) \<and>
   scan_commits ms kernels = Inr (kernels \<union> \<Union> (spec_block_trailers ` set ms)) \<and>
   scan_commits [''title\<newline>\<newline>body line without colon\<newline>CI-Test-Kernel: foo''] {} =
     Inr {''foo''} \<and>
   scan_commits [''title\<newline>\<newline>CI-Test-Kernel: foo\<newline>some note without colon''] {} =
     Inr {}"
proof (intro conjI)
  show "scan_lines lines (length lines) kernels = Inr (kernels \<union> spec_trailers lines)"
    using scan_lines_spec [of "length lines" lines kernels] by simp
  show "scan_commits ms kernels = Inr (kernels \<union> \<Union> (spec_block_trailers ` set ms))"
    by (rule scan_commits_spec)
  show "scan_commits [''title\<newline>\<newline>body line without colon\<newline>CI-Test-Kernel: foo''] {} =
     Inr {''foo''}"
    by code_simp
  show "scan_commits [''title\<newline>\<newline>CI-Test-Kernel: foo\<newline>some note without colon''] {} =
     Inr {}"
    by code_simp
qed

subsection \<open>The empty commit range\<close>

text \<open>
  Claim C4: when both \<open>git\<close> calls succeed and the output of \<open>git log\<close> is empty or
  consists of whitespace only, the extraction returns the empty set and raises nothing,
  the kernel set is the singleton of the default kernel, and the run prints the matrix of
  that one kernel.
\<close>

theorem empty_range:
  "merge_base_of env = Inr merge_base \<Longrightarrow> git_log env merge_base = Inr out \<Longrightarrow>
   strip out = [] \<Longrightarrow>
   get_kernel_trailers_from_commits env = Inr {} \<and>
   kernels_to_test default_kernel {} = {default_kernel} \<and>
   main set_iter env [prog, default_kernel] =
     Inr \<lparr>exit_code = 0,
          stdout = [''matrix='' @ json_dumps (build_matrix default_kernel (set_iter {default_kernel}))],
          stderr = []\<rparr>"
  by (simp add: get_kernel_trailers_from_commits_def trailers_of_log_def kernels_to_test_def
      main_def)

theorem empty_range_witness:
  "merge_base_of \<lparr>GITHUB_BASE_REF = None,
       subprocess_run = (\<lambda>a. if a = [''git'', ''merge-base'', ''HEAD'', ''origin/main'']
                              then Inr ''0123abc\<newline>'' else Inr ''\<newline>'')\<rparr> = Inr ''0123abc'' \<and>
   strip ''\<newline>'' = [] \<and>
   get_kernel_trailers_from_commits \<lparr>GITHUB_BASE_REF = None,
       subprocess_run = (\<lambda>a. if a = [''git'', ''merge-base'', ''HEAD'', ''origin/main'']
                              then Inr ''0123abc\<newline>'' else Inr ''\<newline>'')\<rparr> = Inr {}"
proof -
  let ?env = "\<lparr>GITHUB_BASE_REF = None,
       subprocess_run = (\<lambda>a. if a = [''git'', ''merge-base'', ''HEAD'', ''origin/main'']
                              then Inr ''0123abc\<newline>'' else Inr ''\<newline>'')\<rparr>"
  have a: "merge_base_of ?env = Inr ''0123abc''"
    by (simp add: merge_base_of_def strip_def py_isspace_def)
  have b: "git_log ?env ''0123abc'' = Inr ''\<newline>''"
    by (simp add: git_log_def)
  have c: "strip ''\<newline>'' = []"
    by (simp add: strip_def py_isspace_def)
  from empty_range [OF a b c] a c show ?thesis by simp
qed

subsection \<open>Stripping before the prefix test\<close>

text \<open>
  Claim C8: a scanned line is stripped before the test for the key, so a line made of
  indentation, the key \<open>CI-Test-Kernel:\<close> and any text \<open>v\<close> is recognised; the value added
  is all of what follows the first colon, stripped, which is \<open>v\<close> stripped, whatever
  colons \<open>v\<close> itself holds. The scan then goes on with the line above.
\<close>

theorem indented_trailer_value:
  "i < length lines \<Longrightarrow> \<forall>c \<in> set ind. py_isspace c \<Longrightarrow>
   lines ! i = ind @ ''CI-Test-Kernel:'' @ v \<Longrightarrow>
   startswith (strip (lines ! i)) ''CI-Test-Kernel:'' \<and>
   strip (after_first_colon (strip (lines ! i))) = strip v \<and>
   scan_lines lines (Suc i) kernels = scan_lines lines i (insert (strip v) kernels)"
proof -
  assume ind: "\<forall>c \<in> set ind. py_isspace c" and line: "lines ! i = ind @ ''CI-Test-Kernel:'' @ v"
  let ?w = "rev (dropWhile py_isspace (rev v))"
  have s: "strip (lines ! i) = ''CI-Test-Kernel:'' @ ?w"
    unfolding line strip_space_append [OF ind] by (rule strip_key_line)
  have st: "startswith (strip (lines ! i)) ''CI-Test-Kernel:''"
    unfolding s by (simp add: startswith_def)
  have val: "strip (after_first_colon (strip (lines ! i))) = strip v"
    unfolding s after_first_colon_key by (rule strip_rstrip)
  have "scan_lines lines (Suc i) kernels =
          scan_lines lines i (insert (strip (drop (length trailer_key) (strip (lines ! i)))) kernels)"
    unfolding scan_lines_step using st by (simp add: s trailer_key_def)
  also have "strip (drop (length trailer_key) (strip (lines ! i))) = strip v"
    unfolding s drop_key by (rule strip_rstrip)
  finally show ?thesis using st val by simp
qed

theorem indented_trailer_value_witness:
  "2 < length [''title'', '''', ''  CI-Test-Kernel: a:b ''] \<and>
   [''title'', '''', ''  CI-Test-Kernel: a:b ''] ! 2 = ''  '' @ ''CI-Test-Kernel:'' @ '' a:b '' \<and>
   strip '' a:b '' = ''a:b'' \<and>
   scan_lines [''title'', '''', ''  CI-Test-Kernel: a:b ''] 3 {} =
     scan_lines [''title'', '''', ''  CI-Test-Kernel: a:b ''] 2 {''a:b''} \<and>
   scan_commits [''title\<newline>\<newline>  CI-Test-Kernel: a:b \<newline>Signed-off-by: x''] {} = Inr {''a:b''}"
proof -
  have a: "2 < length [''title'', '''', ''  CI-Test-Kernel: a:b '']" by simp
  have b: "\<forall>c \<in> set ''  ''. py_isspace c" by (simp add: py_isspace_def)
  have c: "[''title'', '''', ''  CI-Test-Kernel: a:b ''] ! 2 = ''  '' @ ''CI-Test-Kernel:'' @ '' a:b ''"
    by simp
  have d: "strip '' a:b '' = ''a:b''" by (simp add: strip_def py_isspace_def)
  have e: "scan_commits [''title\<newline>\<newline>  CI-Test-Kernel: a:b \<newline>Signed-off-by: x''] {} = Inr {''a:b''}"
    by code_simp
  from indented_trailer_value [OF a b c, of "{}"] a c d e show ?thesis
    by (simp add: numeral_3_eq_3 numeral_2_eq_2)
qed

subsection \<open>The subject line\<close>

text \<open>
  Claim C10: the scan does not leave the first line of a message out. When every line
  below the subject is blank or holds a colon, so that the scan reaches the subject, and
  the stripped subject starts with \<open>CI-Test-Kernel:\<close>, the scan returns a set that holds
  the subject's value. The message of the single line \<open>CI-Test-Kernel: foo\<close> yields
  \<open>foo\<close>.
\<close>

theorem subject_line_scanned:
  "\<forall>l \<in> set rest. strip l = [] \<or> CHR '':'' \<in> set (strip l) \<Longrightarrow>
   startswith (strip subject) ''CI-Test-Kernel:'' \<Longrightarrow>
   \<exists>K. scan_lines (subject # rest) (length (subject # rest)) kernels = Inr K \<and>
       strip (after_first_colon (strip subject)) \<in> K"
proof -
  assume rest: "\<forall>l \<in> set rest. strip l = [] \<or> CHR '':'' \<in> set (strip l)"
    and subj: "startswith (strip subject) ''CI-Test-Kernel:''"
  have "strip subject \<in> set (spec_scanned (subject # rest))"
    using rest subj by (rule subject_in_scanned)
  then have "strip (drop (length trailer_key) (strip subject)) \<in> spec_trailers (subject # rest)"
    using subj by (auto simp: spec_trailers_def trailer_key_def)
  then have "strip (after_first_colon (strip subject)) \<in> spec_trailers (subject # rest)"
    unfolding key_value(2) [OF subj] .
  moreover have "scan_lines (subject # rest) (length (subject # rest)) kernels =
      Inr (kernels \<union> spec_trailers (subject # rest))"
    using scan_lines_spec [of "length (subject # rest)" "subject # rest" kernels] by simp
  ultimately show ?thesis by blast
qed

theorem subject_line_scanned_witness:
  "startswith (strip ''CI-Test-Kernel: foo'') ''CI-Test-Kernel:'' \<and>
   strip (after_first_colon (strip ''CI-Test-Kernel: foo'')) = ''foo'' \<and>
   (\<exists>K. scan_lines [''CI-Test-Kernel: foo'', '''', ''Signed-off-by: x''] 3 {} = Inr K \<and>
        ''foo'' \<in> K) \<and>
   scan_commits [''CI-Test-Kernel: foo''] {} = Inr {''foo''} \<and>
   trailers_of_log ''CI-Test-Kernel: foo\<newline>\<newline>---ENDOFCOMMIT---\<newline>'' = Inr {''foo''}"
proof -
  have a: "\<forall>l \<in> set ['''', ''Signed-off-by: x'']. strip l = [] \<or> CHR '':'' \<in> set (strip l)"
    by (simp add: strip_def py_isspace_def)
  have b: "startswith (strip ''CI-Test-Kernel: foo'') ''CI-Test-Kernel:''"
    by (simp add: strip_def py_isspace_def startswith_def)
  have c: "strip (after_first_colon (strip ''CI-Test-Kernel: foo'')) = ''foo''"
    by (simp add: strip_def py_isspace_def after_first_colon_def)
  have d: "scan_commits [''CI-Test-Kernel: foo''] {} = Inr {''foo''}"
    by code_simp
  have e: "trailers_of_log ''CI-Test-Kernel: foo\<newline>\<newline>---ENDOFCOMMIT---\<newline>'' = Inr {''foo''}"
    by code_simp
  from subject_line_scanned [OF a b, of "{}"] b c d e show ?thesis
    by (simp add: numeral_3_eq_3)
qed

section \<open>Properties of the matrix builder\<close>


lemma kernel_body_append: "kernel_body d m k = m @ kernel_rows d k"
  by (simp add: kernel_body_def kernel_rows_def schedulers_def layered_flags_def Let_def)

lemma foldl_kernel_body: "foldl (kernel_body d) m ks = m @ concat (map (kernel_rows d) ks)"
proof (induction ks arbitrary: m)
  case Nil
  show ?case by simp
next
  case (Cons k ks)
  show ?case by (simp add: Cons.IH kernel_body_append [of d m k])
qed

lemma build_matrix_concat: "build_matrix d ks = concat (map (kernel_rows d) ks)"
  by (simp add: build_matrix_def foldl_kernel_body)

lemma kernel_rows_eq:
  "kernel_rows d k =
     map (\<lambda>s. mk_row s '''' (if k = d then '''' else k)) schedulers @
     (if k \<noteq> ''stable/6_12'' then [mk_row ''scx_p2dq'' '''' (if k = d then '''' else k)] else []) @
     map (\<lambda>f. mk_row ''scx_layered'' f (if k = d then '''' else k))
       [''--disable-topology=false '', ''--disable-topology=false --disable-antistall'',
        ''--disable-topology=true '', ''--disable-topology=true --disable-antistall'']"
  by (simp add: kernel_body_def kernel_rows_def schedulers_def layered_flags_def Let_def)

lemma kernel_rows_subset: "k \<in> set ks \<Longrightarrow> set (kernel_rows d k) \<subseteq> set (build_matrix d ks)"
  by (auto simp: build_matrix_concat)

lemma length_kernel_rows: "length (kernel_rows d k) = (if k = ''stable/6_12'' then 11 else 12)"
  by (simp add: kernel_rows_eq schedulers_def)

lemma row_fields [simp]:
  "map_of (mk_row n f k) ''name'' = Some n"
  "map_of (mk_row n f k) ''flags'' = Some f"
  "map_of (mk_row n f k) ''kernel'' = Some k"
  by (simp_all add: mk_row_def)

lemma kernel_rows_kernel:
  "r \<in> set (kernel_rows d k) \<Longrightarrow> map_of r ''kernel'' = Some (if k = d then '''' else k)"
  by (auto simp: kernel_rows_eq split: if_splits)

lemma kernel_rows_p2dq:
  "r \<in> set (kernel_rows d k) \<Longrightarrow> map_of r ''name'' = Some ''scx_p2dq'' \<Longrightarrow> k \<noteq> ''stable/6_12''"
  by (auto simp: kernel_rows_eq schedulers_def split: if_splits)

lemma length_matrix:
  "distinct ks \<Longrightarrow>
   length (build_matrix d ks) = 12 * length ks - (if ''stable/6_12'' \<in> set ks then 1 else 0)"
proof (induction ks)
  case Nil
  show ?case by (simp add: build_matrix_concat)
next
  case (Cons k ks)
  then have IH: "length (build_matrix d ks) = 12 * length ks - (if ''stable/6_12'' \<in> set ks then 1 else 0)"
    and nk: "k \<notin> set ks" by simp_all
  have step: "length (build_matrix d (k # ks)) = length (kernel_rows d k) + length (build_matrix d ks)"
    by (simp add: build_matrix_concat)
  have pos: "''stable/6_12'' \<in> set ks \<Longrightarrow> 0 < length ks" by auto
  show ?case
    using nk pos unfolding step IH length_kernel_rows by (auto split: if_splits)
qed

lemma matrix_rows_shape:
  "r \<in> set (build_matrix d ks) \<Longrightarrow> \<exists>n f k. r = [(''name'', n), (''flags'', f), (''kernel'', k)]"
  by (auto simp: build_matrix_concat kernel_rows_eq mk_row_def)

section \<open>Reading back what \<open>json.dumps\<close> prints\<close>

lemma hex_value_digit: "n < 16 \<Longrightarrow> hex_value (hex_digit n) = Some n"
proof -
  assume "n < 16"
  then have "n \<in> {0, 1, 2, 3, 4, 5, 6, 7, 8, 9, 10, 11, 12, 13, 14, 15}" by (simp; arith)
  then show ?thesis
    by (auto simp: hex_value_def hex_digit_def)
qed

lemma hex_digit_mod: "hex_digit n = hex_digit (n mod 16)"
  by (simp add: hex_digit_def)

lemma hex4_digits:
  assumes "n < 256"
  shows "hex4 (hex_digit (n div 4096)) (hex_digit (n div 256)) (hex_digit (n div 16)) (hex_digit n) = Some n"
proof -
  have a: "n div 4096 = 0" "n div 256 = 0" using assms by simp_all
  have b: "n div 16 < 16" using assms by simp
  have c: "hex_value (hex_digit n) = Some (n mod 16)"
    using hex_value_digit [of "n mod 16"] hex_digit_mod [of n] by simp
  show ?thesis
    unfolding hex4_def a using hex_value_digit [OF b] c hex_value_digit [of 0]
    by simp
qed

lemma parse_chars_u:
  "parse_chars (CHR 0x5C # CHR ''u'' # h3 # h2 # h1 # h0 # rest) =
     (case hex4 h3 h2 h1 h0 of
        None \<Rightarrow> None
      | Some n \<Rightarrow>
          if n < 256 then
            (case parse_chars rest of
               None \<Rightarrow> None
             | Some (s, r) \<Rightarrow> Some (char_of n # s, r))
          else None)"
  by simp

lemma parse_chars_escape:
  "parse_chars (escape_char c @ rest) =
     (case parse_chars rest of None \<Rightarrow> None | Some (s, r) \<Rightarrow> Some (c # s, r))"
proof -
  let ?n = "of_char c :: nat"
  have lt: "?n < 256" by simp
  consider (bs) "c = CHR 0x5C" | (qu) "c = CHR 0x22"
    | (b) "?n = 8" | (f) "?n = 12" | (n) "?n = 10" | (r) "?n = 13" | (t) "?n = 9"
    | (plain) "c \<noteq> CHR 0x5C" "c \<noteq> CHR 0x22" "32 \<le> ?n" "?n \<le> 126"
    | (other) "c \<noteq> CHR 0x5C" "c \<noteq> CHR 0x22" "?n \<noteq> 8" "?n \<noteq> 12" "?n \<noteq> 10" "?n \<noteq> 13" "?n \<noteq> 9"
        "\<not> (32 \<le> ?n \<and> ?n \<le> 126)"
    by blast
  then show ?thesis
  proof cases
    case bs
    show ?thesis unfolding bs by (simp add: escape_char_def unescape_def)
  next
    case qu
    show ?thesis unfolding qu by (simp add: escape_char_def unescape_def)
  next
    case b
    then have "(of_char c :: nat) = of_char (CHR 0x08)" by simp
    then have c: "c = CHR 0x08" by (rule of_char_eqI)
    show ?thesis unfolding c by (simp add: escape_char_def unescape_def)
  next
    case f
    then have "(of_char c :: nat) = of_char (CHR 0x0C)" by simp
    then have c: "c = CHR 0x0C" by (rule of_char_eqI)
    show ?thesis unfolding c by (simp add: escape_char_def unescape_def)
  next
    case n
    then have "(of_char c :: nat) = of_char (CHR 0x0A)" by simp
    then have c: "c = CHR 0x0A" by (rule of_char_eqI)
    show ?thesis unfolding c by (simp add: escape_char_def unescape_def)
  next
    case r
    then have "(of_char c :: nat) = of_char (CHR 0x0D)" by simp
    then have c: "c = CHR 0x0D" by (rule of_char_eqI)
    show ?thesis unfolding c by (simp add: escape_char_def unescape_def)
  next
    case t
    then have "(of_char c :: nat) = of_char (CHR 0x09)" by simp
    then have c: "c = CHR 0x09" by (rule of_char_eqI)
    show ?thesis unfolding c by (simp add: escape_char_def unescape_def)
  next
    case plain
    then have e: "escape_char c = [c]"
      by (auto simp: escape_char_def Let_def)
    show ?thesis unfolding e using plain by simp
  next
    case other
    then have e: "escape_char c =
        [CHR 0x5C, CHR ''u'', hex_digit (?n div 4096), hex_digit (?n div 256),
         hex_digit (?n div 16), hex_digit ?n]"
      by (simp add: escape_char_def Let_def)
    show ?thesis
      unfolding e append_Cons append_Nil parse_chars_u hex4_digits [OF lt]
      using lt by (simp split: option.split)
  qed
qed

lemma parse_chars_dumps:
  "parse_chars (concat (map escape_char s) @ CHR 0x22 # rest) = Some (s, rest)"
proof (induction s)
  case Nil
  show ?case by simp
next
  case (Cons c s)
  have "parse_chars (concat (map escape_char (c # s)) @ CHR 0x22 # rest) =
          parse_chars (escape_char c @ (concat (map escape_char s) @ CHR 0x22 # rest))"
    by simp
  also have "\<dots> = Some (c # s, rest)"
    unfolding parse_chars_escape Cons.IH by simp
  finally show ?case .
qed

lemma parse_string_dumps: "parse_string (dumps_str s @ rest) = Some (s, rest)"
  by (simp add: parse_string_def dumps_str_def parse_chars_dumps)

lemma skip_ws_dumps_str: "skip_ws (dumps_str s @ rest) = dumps_str s @ rest"
  by (simp add: skip_ws_def dumps_str_def json_ws_def)

lemma parse_member_dumps: "parse_member (dumps_member kv @ rest) = Some (kv, rest)"
proof -
  have a: "skip_ws (CHR '':'' # t) = CHR '':'' # t" for t
    by (simp add: skip_ws_def json_ws_def)
  have b: "skip_ws (CHR '' '' # dumps_str (snd kv) @ rest) = dumps_str (snd kv) @ rest"
    using skip_ws_dumps_str [of "snd kv" rest] by (simp add: skip_ws_def json_ws_def)
  have "parse_member (dumps_member kv @ rest) =
          parse_member (dumps_str (fst kv) @ (CHR '':'' # CHR '' '' # dumps_str (snd kv) @ rest))"
    by (simp add: dumps_member_def)
  also have "\<dots> = Some ((fst kv, snd kv), rest)"
    unfolding parse_member_def parse_string_dumps by (simp add: a b parse_string_dumps)
  finally show ?thesis by simp
qed

lemma parse_items_join:
  assumes p: "\<And>x rest. p (pr x @ rest) = Some (x, rest)"
    and hd: "\<And>x rest. skip_ws (pr x @ rest) = pr x @ rest"
    and ne: "\<And>x. pr x \<noteq> []"
    and close: "close \<noteq> CHR '',''" "\<not> json_ws close"
  shows "xs \<noteq> [] \<Longrightarrow>
         parse_items p close (py_join '', '' (map pr xs) @ close # rest) = Some (xs, rest)"
proof (induction xs rule: list_nonempty_induct)
  case (single x)
  have "skip_ws (close # rest) = close # rest"
    using close by (simp add: skip_ws_def)
  then show ?case
    by (subst parse_items.simps) (simp add: p)
next
  case (cons x xs)
  obtain y ys where xs: "xs = y # ys" using cons.hyps by (cases xs) auto
  let ?tail = "py_join '', '' (map pr xs) @ close # rest"
  have j: "py_join '', '' (map pr (x # xs)) @ close # rest = pr x @ '', '' @ ?tail"
    by (simp add: xs)
  have s1: "skip_ws (CHR '','' # t) = CHR '','' # t" for t
    by (simp add: skip_ws_def json_ws_def)
  have t: "?tail = pr y @ (if ys = [] then [] else '', '' @ py_join '', '' (map pr ys)) @ close # rest"
    by (cases ys) (simp_all add: xs)
  have s2: "skip_ws (CHR '' '' # ?tail) = ?tail"
    using hd [of y "(if ys = [] then [] else '', '' @ py_join '', '' (map pr ys)) @ close # rest"]
    unfolding t by (simp add: skip_ws_def json_ws_def)
  show ?case
    unfolding j
    using close(1)
    by (subst parse_items.simps) (auto simp: p s1 s2 cons.IH simp del: parse_items.simps)
qed

lemma parse_bracketed_dumps:
  assumes p: "\<And>x rest. p (pr x @ rest) = Some (x, rest)"
    and hd: "\<And>x rest. skip_ws (pr x @ rest) = pr x @ rest"
    and ne: "\<And>x. pr x \<noteq> [] \<and> hd (pr x) \<noteq> close"
    and close: "close \<noteq> CHR '',''" "\<not> json_ws close"
  shows "parse_bracketed opn p close (opn # py_join '', '' (map pr xs) @ close # rest) =
           Some (xs, rest)"
proof (cases xs)
  case Nil
  have "skip_ws (close # rest) = close # rest"
    using close by (simp add: skip_ws_def)
  then show ?thesis
    unfolding Nil by (simp add: parse_bracketed_def)
next
  case (Cons y ys)
  let ?t = "(if ys = [] then [] else '', '' @ py_join '', '' (map pr ys)) @ close # rest"
  have t: "py_join '', '' (map pr xs) @ close # rest = pr y @ ?t"
    unfolding Cons by (cases ys) simp_all
  have sk: "skip_ws (py_join '', '' (map pr xs) @ close # rest) =
            py_join '', '' (map pr xs) @ close # rest"
    unfolding t by (rule hd)
  obtain c r where cr: "pr y = c # r" and c: "c \<noteq> close"
    using ne [of y] by (cases "pr y") auto
  have items: "parse_items p close (py_join '', '' (map pr xs) @ close # rest) = Some (xs, rest)"
    using p hd _ close
  proof (rule parse_items_join)
    show "pr x \<noteq> []" for x using ne by simp
    show "xs \<noteq> []" using Cons by simp
  qed
  have "parse_bracketed opn p close (opn # py_join '', '' (map pr xs) @ close # rest) =
          parse_items p close (py_join '', '' (map pr xs) @ close # rest)"
    unfolding parse_bracketed_def list.case sk
    unfolding t cr using c by simp
  then show ?thesis unfolding items .
qed

lemma dumps_dict_member:
  "dumps_dict d = CHR ''{'' # py_join '', '' (map dumps_member d) @ ''}''"
  by (simp add: dumps_dict_def)

lemma parse_object_dumps: "parse_object (dumps_dict d @ rest) = Some (d, rest)"
proof -
  have "parse_bracketed (CHR ''{'') parse_member (CHR ''}'')
          (CHR ''{'' # py_join '', '' (map dumps_member d) @ CHR ''}'' # rest) = Some (d, rest)"
  proof (rule parse_bracketed_dumps)
    show "parse_member (dumps_member x @ r) = Some (x, r)" for x r
      by (rule parse_member_dumps)
    show "skip_ws (dumps_member x @ r) = dumps_member x @ r" for x r
      using skip_ws_dumps_str [of "fst x" "'': '' @ dumps_str (snd x) @ r"]
      by (simp add: dumps_member_def)
    show "dumps_member x \<noteq> [] \<and> hd (dumps_member x) \<noteq> CHR ''}''" for x
      by (simp add: dumps_member_def dumps_str_def)
    show "CHR ''}'' \<noteq> CHR '',''" by simp
    show "\<not> json_ws (CHR ''}'')" by (simp add: json_ws_def)
  qed
  then show ?thesis by (simp add: parse_object_def dumps_dict_member)
qed

lemma parse_array_dumps: "parse_array (json_dumps xs @ rest) = Some (xs, rest)"
proof -
  have "parse_bracketed (CHR ''['') parse_object (CHR '']'')
          (CHR ''['' # py_join '', '' (map dumps_dict xs) @ CHR '']'' # rest) = Some (xs, rest)"
  proof (rule parse_bracketed_dumps)
    show "parse_object (dumps_dict x @ r) = Some (x, r)" for x r
      by (rule parse_object_dumps)
    show "skip_ws (dumps_dict x @ r) = dumps_dict x @ r" for x r
      by (simp add: dumps_dict_member skip_ws_def json_ws_def)
    show "dumps_dict x \<noteq> [] \<and> hd (dumps_dict x) \<noteq> CHR '']''" for x
      by (simp add: dumps_dict_member)
    show "CHR '']'' \<noteq> CHR '',''" by simp
    show "\<not> json_ws (CHR '']'')" by (simp add: json_ws_def)
  qed
  then show ?thesis by (simp add: parse_array_def json_dumps_def)
qed

lemma json_loads_dumps: "json_loads (json_dumps xs) = Some xs"
proof -
  have sk: "skip_ws (json_dumps xs) = json_dumps xs"
    by (simp add: json_dumps_def skip_ws_def json_ws_def)
  have pa: "parse_array (json_dumps xs) = Some (xs, [])"
    using parse_array_dumps [of xs "[]"] by simp
  have e: "skip_ws [] = []" by (simp add: skip_ws_def)
  show ?thesis
    unfolding json_loads_def sk pa by (simp add: e)
qed

subsection \<open>The \<open>scx_layered\<close> rows\<close>




subsection \<open>Rows per kernel\<close>

text \<open>
  Claim C3: let \<open>ks\<close> be the kernel set in the order of the run, the default kernel among
  its members. The matrix is the concatenation of the rows emitted per kernel. Per kernel
  there are 7 single-variant rows, 4 \<open>scx_layered\<close> rows and one \<open>scx_p2dq\<close> row, the last
  one missing when the kernel is \<open>stable/6_12\<close>: 12 rows for a kernel other than
  \<open>stable/6_12\<close>, 11 for \<open>stable/6_12\<close>. No \<open>scx_p2dq\<close> row of the matrix has the kernel
  \<open>stable/6_12\<close>, and the matrix has 12 rows per kernel, less one when \<open>stable/6_12\<close> is in
  the set.
\<close>

theorem rows_per_kernel:
  "default_kernel \<in> set ks \<Longrightarrow> distinct ks \<Longrightarrow>
   build_matrix default_kernel ks = concat (map (kernel_rows default_kernel) ks) \<and>
   (\<forall>k \<in> set ks.
      length (filter (\<lambda>r. map_of r ''name'' \<in> Some ` set schedulers \<and>
                          map_of r ''flags'' = Some '''')
                (kernel_rows default_kernel k)) = 7 \<and>
      length (filter (\<lambda>r. map_of r ''name'' = Some ''scx_layered'')
                (kernel_rows default_kernel k)) = 4 \<and>
      length (filter (\<lambda>r. map_of r ''name'' = Some ''scx_p2dq'')
                (kernel_rows default_kernel k)) = (if k = ''stable/6_12'' then 0 else 1) \<and>
      length (kernel_rows default_kernel k) = (if k = ''stable/6_12'' then 11 else 12)) \<and>
   (\<forall>r \<in> set (build_matrix default_kernel ks).
      map_of r ''name'' = Some ''scx_p2dq'' \<longrightarrow> map_of r ''kernel'' \<noteq> Some ''stable/6_12'') \<and>
   length (build_matrix default_kernel ks) =
     12 * length ks - (if ''stable/6_12'' \<in> set ks then 1 else 0)"
proof (intro conjI ballI impI)
  show "build_matrix default_kernel ks = concat (map (kernel_rows default_kernel) ks)"
    by (rule build_matrix_concat)
next
  fix k
  show "length (filter (\<lambda>r. map_of r ''name'' \<in> Some ` set schedulers \<and>
                          map_of r ''flags'' = Some '''')
                (kernel_rows default_kernel k)) = 7"
    by (simp add: kernel_rows_eq schedulers_def)
  show "length (filter (\<lambda>r. map_of r ''name'' = Some ''scx_layered'')
                (kernel_rows default_kernel k)) = 4"
    by (simp add: kernel_rows_eq schedulers_def)
  show "length (filter (\<lambda>r. map_of r ''name'' = Some ''scx_p2dq'')
                (kernel_rows default_kernel k)) = (if k = ''stable/6_12'' then 0 else 1)"
    by (simp add: kernel_rows_eq schedulers_def)
  show "length (kernel_rows default_kernel k) = (if k = ''stable/6_12'' then 11 else 12)"
    by (rule length_kernel_rows)
next
  fix r
  assume r: "r \<in> set (build_matrix default_kernel ks)"
    and p: "map_of r ''name'' = Some ''scx_p2dq''"
  from r obtain k where k: "r \<in> set (kernel_rows default_kernel k)"
    by (auto simp: build_matrix_concat)
  from kernel_rows_p2dq [OF k p] kernel_rows_kernel [OF k]
  show "map_of r ''kernel'' \<noteq> Some ''stable/6_12''"
    by (auto split: if_splits)
next
  assume "distinct ks"
  then show "length (build_matrix default_kernel ks) =
     12 * length ks - (if ''stable/6_12'' \<in> set ks then 1 else 0)"
    by (rule length_matrix)
qed

theorem rows_per_kernel_witness:
  "''stable/6_13'' \<in> set [''stable/6_12'', ''stable/6_13''] \<and>
   distinct [''stable/6_12'', ''stable/6_13''] \<and>
   length (kernel_rows ''stable/6_13'' ''stable/6_13'') = 12 \<and>
   length (kernel_rows ''stable/6_13'' ''stable/6_12'') = 11 \<and>
   length (filter (\<lambda>r. map_of r ''name'' = Some ''scx_p2dq'')
             (kernel_rows ''stable/6_13'' ''stable/6_12'')) = 0 \<and>
   length (build_matrix ''stable/6_13'' [''stable/6_12'', ''stable/6_13'']) = 23"
  using rows_per_kernel [of "''stable/6_13''" "[''stable/6_12'', ''stable/6_13'']"]
  by simp

subsection \<open>The kernel label\<close>

text \<open>
  Claim C5: every row emitted for a kernel \<open>k\<close> of the kernel set is a row of the matrix,
  and its \<open>kernel\<close> field is the empty string when \<open>k\<close> is the default kernel and \<open>k\<close>
  itself otherwise.
\<close>

theorem kernel_label:
  "k \<in> set ks \<Longrightarrow> r \<in> set (kernel_rows default_kernel k) \<Longrightarrow>
   r \<in> set (build_matrix default_kernel ks) \<and>
   map_of r ''kernel'' = Some (if k = default_kernel then '''' else k)"
  using kernel_rows_subset [of k ks default_kernel] kernel_rows_kernel [of r default_kernel k]
  by blast

theorem kernel_label_witness:
  "''v6.14'' \<in> set [''stable/6_13'', ''v6.14''] \<and>
   mk_row ''scx_p2dq'' '''' ''v6.14'' \<in> set (kernel_rows ''stable/6_13'' ''v6.14'') \<and>
   mk_row ''scx_p2dq'' '''' ''v6.14''
     \<in> set (build_matrix ''stable/6_13'' [''stable/6_13'', ''v6.14'']) \<and>
   map_of (mk_row ''scx_p2dq'' '''' ''v6.14'') ''kernel'' = Some ''v6.14''"
proof -
  have k: "''v6.14'' \<in> set [''stable/6_13'', ''v6.14'']" by simp
  have r: "mk_row ''scx_p2dq'' '''' ''v6.14'' \<in> set (kernel_rows ''stable/6_13'' ''v6.14'')"
    by (simp add: kernel_rows_eq)
  from kernel_label [OF k r] k r show ?thesis by simp
qed

subsection \<open>The order of the rows\<close>

text \<open>
  Claim C9: the matrix is, kernel after kernel in the order of the iteration, one
  contiguous block per kernel: the seven single-variant schedulers \<open>scx_bpfland\<close>,
  \<open>scx_chaos\<close>, \<open>scx_lavd\<close>, \<open>scx_rlfifo\<close>, \<open>scx_rustland\<close>, \<open>scx_rusty\<close>, \<open>scx_tickless\<close>,
  then \<open>scx_p2dq\<close> unless the kernel is \<open>stable/6_12\<close>, then the four \<open>scx_layered\<close> rows
  in product order: \<open>--disable-topology=false\<close> joined with the empty string and with
  \<open>--disable-antistall\<close>, then \<open>--disable-topology=true\<close> joined with the same two. Each
  row is given by its three fields: the name, the flags (empty except for \<open>scx_layered\<close>)
  and the kernel label.
\<close>

theorem block_order:
  "build_matrix default_kernel ks =
     concat (map (\<lambda>k.
       map (\<lambda>s. [(''name'', s), (''flags'', []),
                 (''kernel'', if k = default_kernel then [] else k)])
         [''scx_bpfland'', ''scx_chaos'', ''scx_lavd'', ''scx_rlfifo'', ''scx_rustland'',
          ''scx_rusty'', ''scx_tickless''] @
       (if k = ''stable/6_12'' then []
        else [[(''name'', ''scx_p2dq''), (''flags'', []),
               (''kernel'', if k = default_kernel then [] else k)]]) @
       map (\<lambda>(a, b). [(''name'', ''scx_layered''), (''flags'', a @ '' '' @ b),
                      (''kernel'', if k = default_kernel then [] else k)])
         [(''--disable-topology=false'', []),
          (''--disable-topology=false'', ''--disable-antistall''),
          (''--disable-topology=true'', []),
          (''--disable-topology=true'', ''--disable-antistall'')]) ks)"
  unfolding build_matrix_concat
  by (rule arg_cong [where f = concat], rule map_cong, rule refl)
     (simp add: kernel_rows_eq schedulers_def mk_row_def)

text \<open>
  The matrix of the default kernel \<open>stable/6_13\<close> and the trailer kernel \<open>stable/6_12\<close>,
  iterated in the order \<open>stable/6_12\<close>, \<open>stable/6_13\<close>, row by row.
\<close>

theorem block_order_witness:
  "build_matrix ''stable/6_13'' [''stable/6_12'', ''stable/6_13''] =
     [[(''name'', ''scx_bpfland''), (''flags'', []), (''kernel'', ''stable/6_12'')],
      [(''name'', ''scx_chaos''), (''flags'', []), (''kernel'', ''stable/6_12'')],
      [(''name'', ''scx_lavd''), (''flags'', []), (''kernel'', ''stable/6_12'')],
      [(''name'', ''scx_rlfifo''), (''flags'', []), (''kernel'', ''stable/6_12'')],
      [(''name'', ''scx_rustland''), (''flags'', []), (''kernel'', ''stable/6_12'')],
      [(''name'', ''scx_rusty''), (''flags'', []), (''kernel'', ''stable/6_12'')],
      [(''name'', ''scx_tickless''), (''flags'', []), (''kernel'', ''stable/6_12'')],
      [(''name'', ''scx_layered''), (''flags'', ''--disable-topology=false ''), (''kernel'', ''stable/6_12'')],
      [(''name'', ''scx_layered''), (''flags'', ''--disable-topology=false --disable-antistall''), (''kernel'', ''stable/6_12'')],
      [(''name'', ''scx_layered''), (''flags'', ''--disable-topology=true ''), (''kernel'', ''stable/6_12'')],
      [(''name'', ''scx_layered''), (''flags'', ''--disable-topology=true --disable-antistall''), (''kernel'', ''stable/6_12'')],
      [(''name'', ''scx_bpfland''), (''flags'', []), (''kernel'', [])],
      [(''name'', ''scx_chaos''), (''flags'', []), (''kernel'', [])],
      [(''name'', ''scx_lavd''), (''flags'', []), (''kernel'', [])],
      [(''name'', ''scx_rlfifo''), (''flags'', []), (''kernel'', [])],
      [(''name'', ''scx_rustland''), (''flags'', []), (''kernel'', [])],
      [(''name'', ''scx_rusty''), (''flags'', []), (''kernel'', [])],
      [(''name'', ''scx_tickless''), (''flags'', []), (''kernel'', [])],
      [(''name'', ''scx_p2dq''), (''flags'', []), (''kernel'', [])],
      [(''name'', ''scx_layered''), (''flags'', ''--disable-topology=false ''), (''kernel'', [])],
      [(''name'', ''scx_layered''), (''flags'', ''--disable-topology=false --disable-antistall''), (''kernel'', [])],
      [(''name'', ''scx_layered''), (''flags'', ''--disable-topology=true ''), (''kernel'', [])],
      [(''name'', ''scx_layered''), (''flags'', ''--disable-topology=true --disable-antistall''), (''kernel'', [])]]"
  using block_order [of "''stable/6_13''" "[''stable/6_12'', ''stable/6_13'']"]
  by simp

section \<open>Properties of the entry point\<close>

text \<open>
  Claim C7: when \<open>sys.argv\<close> does not have exactly two entries, that is the script's name
  and one positional argument, the run exits with status 1, has printed the usage message
  on \<open>sys.stderr\<close> and nothing on standard output.
\<close>

theorem usage_error:
  "length argv \<noteq> 2 \<Longrightarrow>
   main set_iter env argv =
     Inr \<lparr>exit_code = 1, stdout = [],
          stderr = [''Usage: list-integration-tests.py <default-kernel>'']\<rparr>"
  by (simp add: main_def)

theorem usage_error_witness:
  "length [''list-integration-tests.py'', ''stable/6_13'', ''extra''] \<noteq> 2 \<and>
   main (\<lambda>S. []) \<lparr>GITHUB_BASE_REF = None, subprocess_run = (\<lambda>a. Inl CalledProcessError)\<rparr>
     [''list-integration-tests.py'', ''stable/6_13'', ''extra''] =
     Inr \<lparr>exit_code = 1, stdout = [],
          stderr = [''Usage: list-integration-tests.py <default-kernel>'']\<rparr>"
  using usage_error [of "[''list-integration-tests.py'', ''stable/6_13'', ''extra'']" "\<lambda>S. []"
      "\<lparr>GITHUB_BASE_REF = None, subprocess_run = (\<lambda>a. Inl CalledProcessError)\<rparr>"]
  by simp

subsection \<open>The printed line\<close>

text \<open>
  Claim C6: on every successful run, that is a run that returns with exit status 0,
  standard output holds one line; the line starts with \<open>matrix=\<close>, and what follows the
  prefix parses as a JSON array of objects, each of which has exactly the three keys
  \<open>name\<close>, \<open>flags\<close> and \<open>kernel\<close>, each with a string value.
\<close>

theorem stdout_parses_as_json:
  "main set_iter env argv = Inr r \<Longrightarrow> exit_code r = 0 \<Longrightarrow>
   \<exists>body objs. stdout r = [''matrix='' @ body] \<and> json_loads body = Some objs \<and>
     (\<forall>obj \<in> set objs. \<exists>n f k. obj = [(''name'', n), (''flags'', f), (''kernel'', k)])"
proof -
  assume run: "main set_iter env argv = Inr r" and ok: "exit_code r = 0"
  have len: "length argv = 2"
  proof (rule ccontr)
    assume "length argv \<noteq> 2"
    then have "exit_code r = 1" using run by (auto simp: main_def)
    then show False using ok by simp
  qed
  obtain T where T: "get_kernel_trailers_from_commits env = Inr T"
    using run len by (cases "get_kernel_trailers_from_commits env") (auto simp: main_def Let_def)
  let ?matrix = "build_matrix (argv ! 1) (set_iter (kernels_to_test (argv ! 1) T))"
  have out: "stdout r = [''matrix='' @ json_dumps ?matrix]"
    using run len T by (auto simp: main_def Let_def)
  have "json_loads (json_dumps ?matrix) = Some ?matrix"
    by (rule json_loads_dumps)
  moreover have "\<forall>obj \<in> set ?matrix. \<exists>n f k. obj = [(''name'', n), (''flags'', f), (''kernel'', k)]"
    using matrix_rows_shape by blast
  ultimately show ?thesis using out by blast
qed

theorem stdout_parses_as_json_witness:
  "main (\<lambda>S. if S = {''stable/6_13'', ''stable/6_12''} then [''stable/6_13'', ''stable/6_12''] else [])
     \<lparr>GITHUB_BASE_REF = Some ''main'',
      subprocess_run = (\<lambda>a. if a = [''git'', ''merge-base'', ''HEAD'', ''origin/main'']
                             then Inr ''0123abc\<newline>''
                             else Inr ''fix\<newline>\<newline>CI-Test-Kernel: stable/6_12\<newline>\<newline>---ENDOFCOMMIT---\<newline>'')\<rparr>
     [''list-integration-tests.py'', ''stable/6_13''] =
     Inr \<lparr>exit_code = 0,
          stdout = [''matrix='' @ json_dumps (build_matrix ''stable/6_13'' [''stable/6_13'', ''stable/6_12''])],
          stderr = []\<rparr> \<and>
   (\<exists>body objs.
      [''matrix='' @ json_dumps (build_matrix ''stable/6_13'' [''stable/6_13'', ''stable/6_12''])] =
        [''matrix='' @ body] \<and>
      json_loads body = Some objs \<and>
      (\<forall>obj \<in> set objs. \<exists>n f k. obj = [(''name'', n), (''flags'', f), (''kernel'', k)]))"
proof -
  let ?env = "\<lparr>GITHUB_BASE_REF = Some ''main'',
      subprocess_run = (\<lambda>a. if a = [''git'', ''merge-base'', ''HEAD'', ''origin/main'']
                             then Inr ''0123abc\<newline>''
                             else Inr ''fix\<newline>\<newline>CI-Test-Kernel: stable/6_12\<newline>\<newline>---ENDOFCOMMIT---\<newline>'')\<rparr>"
  let ?it = "\<lambda>S. if S = {''stable/6_13'', ''stable/6_12''} then [''stable/6_13'', ''stable/6_12''] else []"
  let ?r = "\<lparr>exit_code = 0,
          stdout = [''matrix='' @ json_dumps (build_matrix ''stable/6_13'' [''stable/6_13'', ''stable/6_12''])],
          stderr = []\<rparr>"
  have t: "trailers_of_log ''fix\<newline>\<newline>CI-Test-Kernel: stable/6_12\<newline>\<newline>---ENDOFCOMMIT---\<newline>'' =
             Inr {''stable/6_12''}"
    by code_simp
  have g: "get_kernel_trailers_from_commits ?env = Inr {''stable/6_12''}"
    by (simp add: get_kernel_trailers_from_commits_def merge_base_of_def git_log_def t)
  have run: "main ?it ?env [''list-integration-tests.py'', ''stable/6_13''] = Inr ?r"
    by (simp add: main_def g kernels_to_test_def Let_def insert_commute)
  have ok: "exit_code ?r = 0" by simp
  from stdout_parses_as_json [OF run ok] run show ?thesis by simp
qed

end
